theory Spec2Isabelle
  imports Complex_Main "HOL-Library.Word"
begin

unbundle bit_operations_syntax

section \<open>Timer and PIC simulator (timer\_pic.c)\<close>

text \<open>
  A shallow embedding of \<^verbatim>\<open>src/Timer-PIC/timer_pic.c\<close>. The three module-level
  variables \<^verbatim>\<open>timer\<close>, \<^verbatim>\<open>pic\<close> and \<^verbatim>\<open>global_cycles\<close> are the fields of one state
  record that every function takes and returns. The fixed-width C integers are words:
  \<^verbatim>\<open>uint8_t\<close>, \<^verbatim>\<open>uint32_t\<close> and \<^verbatim>\<open>uint64_t\<close> wrap around, \<^verbatim>\<open>int\<close> and \<^verbatim>\<open>int32_t\<close> are
  32-bit words read in two's complement (\<open>-1\<close> is \<open>0xFFFFFFFF\<close>, \<open><s\<close> is the signed
  order).
\<close>

type_synonym u8 = "8 word"
type_synonym u16 = "16 word"
type_synonym u32 = "32 word"
type_synonym u64 = "64 word"

subsection \<open>Configuration constants\<close>

definition TIMER_BASE :: u32 where "TIMER_BASE = 0x10000000"
definition TIMER_SIZE :: u32 where "TIMER_SIZE = 0x100"
definition PIC_BASE :: u32 where "PIC_BASE = 0x10000F00"
definition PIC_SIZE :: u32 where "PIC_SIZE = 0x100"

definition TIMER_OFF_CTRL :: u32 where "TIMER_OFF_CTRL = 0x00"
definition TIMER_OFF_PERIOD :: u32 where "TIMER_OFF_PERIOD = 0x04"
definition TIMER_OFF_COUNT :: u32 where "TIMER_OFF_COUNT = 0x08"
definition TIMER_OFF_STATUS :: u32 where "TIMER_OFF_STATUS = 0x0C"

definition PIC_OFF_MASK :: u32 where "PIC_OFF_MASK = 0x00"
definition PIC_OFF_PENDING :: u32 where "PIC_OFF_PENDING = 0x04"
definition PIC_OFF_EOI :: u32 where "PIC_OFF_EOI = 0x08"
definition PIC_OFF_PRIORITY :: u32 where "PIC_OFF_PRIORITY = 0x0C"

definition VECTOR_TIMER :: u32 where "VECTOR_TIMER = 32"

subsection \<open>The \<^verbatim>\<open>long double\<close> arithmetic\<close>

text \<open>
  The latency statistics are kept in \<^verbatim>\<open>long double\<close>, whose format and rounding the C
  standard leaves to the platform. The embedding does not fix them: the type of the
  values is a parameter \<open>'f\<close>, and the operations the source uses (the constant zero,
  which is also what \<^verbatim>\<open>memset\<close> leaves, the conversion from \<^verbatim>\<open>uint64_t\<close>, and
  \<open>+\<close>, \<open>-\<close>, \<open>*\<close>, \<open>/\<close>) are the fields of a record passed to every function that
  computes with them. A theorem stated for an arbitrary \<open>fp\<close> holds whatever the
  platform's arithmetic is. \<open>real_ld\<close> is the instance with exact arithmetic on the
  reals, used where a concrete run is evaluated.
\<close>

record 'f ld_ops =
  ld_zero :: 'f
  ld_of_u64 :: "u64 \<Rightarrow> 'f"
  ld_add :: "'f \<Rightarrow> 'f \<Rightarrow> 'f"
  ld_sub :: "'f \<Rightarrow> 'f \<Rightarrow> 'f"
  ld_mul :: "'f \<Rightarrow> 'f \<Rightarrow> 'f"
  ld_div :: "'f \<Rightarrow> 'f \<Rightarrow> 'f"

definition real_ld :: "real ld_ops" where
  "real_ld = \<lparr>ld_zero = 0, ld_of_u64 = (\<lambda>w. real (unat w)),
     ld_add = (+), ld_sub = (-), ld_mul = (*), ld_div = (/)\<rparr>"

subsection \<open>Device state\<close>

record TimerDevice =
  enabled :: u8
  irq_enable :: u8
  period :: u32
  count :: u32
  status :: u8
  events_generated :: u64

text \<open>
  The four per-vector arrays of \<^verbatim>\<open>PICDevice\<close> have 64 elements. They are maps from the
  index; every access in the source is behind a guard \<^verbatim>\<open>vector >= 64\<close> or
  \<^verbatim>\<open>vector >= 32\<close>, so no index beyond 63 is ever read or written.
\<close>

record 'f PICDevice =
  mask_bits :: u32
  pending_bits :: u32
  last_event_cycle :: "nat \<Rightarrow> u64"
  samples_count :: "nat \<Rightarrow> u64"
  samples_mean :: "nat \<Rightarrow> 'f"
  samples_m2 :: "nat \<Rightarrow> 'f"

record 'f iosub =
  timer :: TimerDevice
  pic :: "'f PICDevice"
  global_cycles :: u64

subsection \<open>Helpers\<close>

definition in_range :: "u32 \<Rightarrow> u32 \<Rightarrow> u32 \<Rightarrow> bool" where
  "in_range addr base sz \<longleftrightarrow> addr \<ge> base \<and> addr < base + sz"

definition pic_signal_irq :: "u32 \<Rightarrow> 'f iosub \<Rightarrow> 'f iosub" where
  "pic_signal_irq vector s =
     (if vector \<ge> 64 then s
      else s\<lparr>pic := (pic s)\<lparr>
             pending_bits := pending_bits (pic s) OR push_bit (unat (vector mod 32)) 1,
             last_event_cycle := (last_event_cycle (pic s))(unat vector := global_cycles s)\<rparr>\<rparr>)"

definition pic_record_latency :: "'f ld_ops \<Rightarrow> u32 \<Rightarrow> u64 \<Rightarrow> 'f iosub \<Rightarrow> 'f iosub" where
  "pic_record_latency fp vector latency s =
     (if vector \<ge> 64 then s
      else
        let i = unat vector;
            cnt = samples_count (pic s) i + 1;
            delta = ld_sub fp (ld_of_u64 fp latency) (samples_mean (pic s) i);
            mean = ld_add fp (samples_mean (pic s) i) (ld_div fp delta (ld_of_u64 fp cnt));
            delta2 = ld_sub fp (ld_of_u64 fp latency) mean;
            m2 = ld_add fp (samples_m2 (pic s) i) (ld_mul fp delta delta2)
        in s\<lparr>pic := (pic s)\<lparr>
             samples_count := (samples_count (pic s))(i := cnt),
             samples_mean := (samples_mean (pic s))(i := mean),
             samples_m2 := (samples_m2 (pic s))(i := m2)\<rparr>\<rparr>)"

subsection \<open>Timer\<close>

definition timer_reset :: "'f iosub \<Rightarrow> 'f iosub" where
  "timer_reset s = s\<lparr>timer := \<lparr>enabled = 0, irq_enable = 0, period = 0, count = 0,
     status = 0, events_generated = 0\<rparr>\<rparr>"

definition timer_tick :: "'f iosub \<Rightarrow> 'f iosub" where
  "timer_tick s =
     (if enabled (timer s) = 0 then s
      else if period (timer s) = 0 then s
      else if count (timer s) = 0 then
        let s1 = s\<lparr>timer := (timer s)\<lparr>
                   events_generated := events_generated (timer s) + 1, status := 1\<rparr>\<rparr>;
            s2 = (if irq_enable (timer s1) \<noteq> 0 then pic_signal_irq (VECTOR_TIMER mod 32) s1
                  else s1)
        in s2\<lparr>timer := (timer s2)\<lparr>count := period (timer s2)\<rparr>\<rparr>
      else s\<lparr>timer := (timer s)\<lparr>count := count (timer s) - 1\<rparr>\<rparr>)"

subsection \<open>PIC\<close>

definition pic_reset :: "'f ld_ops \<Rightarrow> 'f iosub \<Rightarrow> 'f iosub" where
  "pic_reset fp s = s\<lparr>pic := \<lparr>mask_bits = 0, pending_bits = 0,
     last_event_cycle = (\<lambda>_. 0), samples_count = (\<lambda>_. 0),
     samples_mean = (\<lambda>_. ld_zero fp), samples_m2 = (\<lambda>_. ld_zero fp)\<rparr>\<rparr>"

text \<open>
  \<^verbatim>\<open>__builtin_ctz\<close>: the number of trailing zero bits, found by scanning upwards from
  bit 0. The intrinsic is undefined at 0; the scan gives 32 there, and the only call is
  behind the test \<^verbatim>\<open>pending == 0\<close>.
\<close>

fun ctz_scan :: "nat \<Rightarrow> nat \<Rightarrow> u32 \<Rightarrow> nat" where
  "ctz_scan 0 i w = i"
| "ctz_scan (Suc fuel) i w = (if bit w i then i else ctz_scan fuel (Suc i) w)"

definition builtin_ctz :: "u32 \<Rightarrow> nat" where
  "builtin_ctz w = ctz_scan 32 0 w"

definition pic_get_pending_vector :: "'f iosub \<Rightarrow> u32" where
  "pic_get_pending_vector s =
     (let pending = pending_bits (pic s) AND NOT (mask_bits (pic s))
      in if pending = 0 then - 1 else of_nat (builtin_ctz pending))"

definition pic_ack :: "'f ld_ops \<Rightarrow> u32 \<Rightarrow> 'f iosub \<Rightarrow> 'f iosub" where
  "pic_ack fp vector s =
     (if vector \<ge> 32 then s
      else
        let event_cycle = last_event_cycle (pic s) (unat vector);
            s1 = (if event_cycle \<noteq> 0
                  then pic_record_latency fp vector (global_cycles s - event_cycle) s
                  else s)
        in s1\<lparr>pic := (pic s1)\<lparr>
             pending_bits := pending_bits (pic s1) AND NOT (push_bit (unat vector) 1)\<rparr>\<rparr>)"

subsection \<open>Memory-mapped registers\<close>

definition mmio_read32 :: "u32 \<Rightarrow> 'f iosub \<Rightarrow> u32" where
  "mmio_read32 addr s =
     (if in_range addr TIMER_BASE TIMER_SIZE then
        let off = addr - TIMER_BASE in
        if off = TIMER_OFF_CTRL then
          (ucast (enabled (timer s)) AND 1) OR push_bit 1 (ucast (irq_enable (timer s)) AND 1)
        else if off = TIMER_OFF_PERIOD then period (timer s)
        else if off = TIMER_OFF_COUNT then count (timer s)
        else if off = TIMER_OFF_STATUS then ucast (status (timer s))
        else 0
      else if in_range addr PIC_BASE PIC_SIZE then
        let off = addr - PIC_BASE in
        if off = PIC_OFF_MASK then mask_bits (pic s)
        else if off = PIC_OFF_PENDING then pending_bits (pic s)
        else if off = PIC_OFF_EOI then 0
        else 0
      else 0)"

definition mmio_write32 :: "'f ld_ops \<Rightarrow> u32 \<Rightarrow> u32 \<Rightarrow> 'f iosub \<Rightarrow> 'f iosub" where
  "mmio_write32 fp addr val s =
     (if in_range addr TIMER_BASE TIMER_SIZE then
        let off = addr - TIMER_BASE in
        if off = TIMER_OFF_CTRL then
          s\<lparr>timer := (timer s)\<lparr>enabled := ucast (val AND 1),
                                irq_enable := ucast (drop_bit 1 val AND 1)\<rparr>\<rparr>
        else if off = TIMER_OFF_PERIOD then s\<lparr>timer := (timer s)\<lparr>period := val\<rparr>\<rparr>
        else if off = TIMER_OFF_COUNT then s\<lparr>timer := (timer s)\<lparr>count := val\<rparr>\<rparr>
        else if off = TIMER_OFF_STATUS then
          s\<lparr>timer := (timer s)\<lparr>status := ucast (val AND 0xFF)\<rparr>\<rparr>
        else s
      else if in_range addr PIC_BASE PIC_SIZE then
        let off = addr - PIC_BASE in
        if off = PIC_OFF_MASK then s\<lparr>pic := (pic s)\<lparr>mask_bits := val\<rparr>\<rparr>
        else if off = PIC_OFF_PENDING then
          s\<lparr>pic := (pic s)\<lparr>pending_bits := pending_bits (pic s) AND NOT val\<rparr>\<rparr>
        else if off = PIC_OFF_EOI then pic_ack fp (val AND 0xFF) s
        else s
      else s)"

subsection \<open>The contract of the I/O subsystem\<close>

definition iosub_tick :: "'f iosub \<Rightarrow> 'f iosub" where
  "iosub_tick s = timer_tick (s\<lparr>global_cycles := global_cycles s + 1\<rparr>)"

definition iosub_irq_pending :: "'f iosub \<Rightarrow> u32" where
  "iosub_irq_pending s = pic_get_pending_vector s"

text \<open>The result is the pair of the returned \<^verbatim>\<open>int\<close> and the state left behind.\<close>

definition iosub_ack_irq :: "'f ld_ops \<Rightarrow> u32 \<Rightarrow> 'f iosub \<Rightarrow> u32 \<times> 'f iosub" where
  "iosub_ack_irq fp vector s =
     (if vector <s 0 then (0, s) else (1, pic_ack fp vector s))"

definition iosub_read8 :: "u32 \<Rightarrow> 'f iosub \<Rightarrow> u8" where
  "iosub_read8 addr s =
     (let base = addr AND NOT 3;
          word = mmio_read32 base s;
          shift = unat ((addr AND 3) * 8)
      in ucast (drop_bit shift word AND 0xFF))"

definition iosub_read16 :: "u32 \<Rightarrow> 'f iosub \<Rightarrow> u16" where
  "iosub_read16 addr s =
     (let base = addr AND NOT 3;
          word = mmio_read32 base s;
          shift = unat ((addr AND 2) * 8)
      in ucast (drop_bit shift word AND 0xFFFF))"

definition iosub_read32 :: "u32 \<Rightarrow> 'f iosub \<Rightarrow> u32" where
  "iosub_read32 addr s = mmio_read32 addr s"

definition iosub_write8 :: "'f ld_ops \<Rightarrow> u32 \<Rightarrow> u8 \<Rightarrow> 'f iosub \<Rightarrow> 'f iosub" where
  "iosub_write8 fp addr val s =
     (let base = addr AND NOT 3;
          word = mmio_read32 base s;
          shift = unat ((addr AND 3) * 8);
          mask = push_bit shift (0xFF :: u32);
          neww = (word AND NOT mask) OR push_bit shift (ucast val)
      in mmio_write32 fp base neww s)"

definition iosub_write16 :: "'f ld_ops \<Rightarrow> u32 \<Rightarrow> u16 \<Rightarrow> 'f iosub \<Rightarrow> 'f iosub" where
  "iosub_write16 fp addr val s =
     (let base = addr AND NOT 3;
          word = mmio_read32 base s;
          shift = unat ((addr AND 2) * 8);
          mask = push_bit shift (0xFFFF :: u32);
          neww = (word AND NOT mask) OR push_bit shift (ucast val)
      in mmio_write32 fp base neww s)"

definition iosub_write32 :: "'f ld_ops \<Rightarrow> u32 \<Rightarrow> u32 \<Rightarrow> 'f iosub \<Rightarrow> 'f iosub" where
  "iosub_write32 fp addr val s = mmio_write32 fp addr val s"

subsection \<open>Metrics\<close>

text \<open>The three out-parameters \<^verbatim>\<open>count\<close>, \<^verbatim>\<open>mean\<close> and \<^verbatim>\<open>variance\<close> are returned as a triple.\<close>

definition iosub_get_irq_stats :: "'f ld_ops \<Rightarrow> u32 \<Rightarrow> 'f iosub \<Rightarrow> u64 \<times> 'f \<times> 'f" where
  "iosub_get_irq_stats fp vector s =
     (if vector \<ge> 64 then (0, ld_zero fp, ld_zero fp)
      else
        let i = unat vector in
        (samples_count (pic s) i, samples_mean (pic s) i,
         if samples_count (pic s) i > 1
         then ld_div fp (samples_m2 (pic s) i) (ld_of_u64 fp (samples_count (pic s) i - 1))
         else ld_zero fp))"

definition iosub_get_global_cycles :: "'f iosub \<Rightarrow> u64" where
  "iosub_get_global_cycles s = global_cycles s"

subsection \<open>Initialisation\<close>

definition iosub_init_default :: "'f ld_ops \<Rightarrow> 'f iosub \<Rightarrow> 'f iosub" where
  "iosub_init_default fp s = pic_reset fp (timer_reset (s\<lparr>global_cycles := 0\<rparr>))"

text \<open>
  The state at program start: the three variables are statics, so they are
  zero-initialised. It is also what \<^verbatim>\<open>iosub_init_default\<close> leaves, whatever it starts
  from.
\<close>

definition zero_state :: "'f ld_ops \<Rightarrow> 'f iosub" where
  "zero_state fp =
     \<lparr>timer = \<lparr>enabled = 0, irq_enable = 0, period = 0, count = 0, status = 0,
                events_generated = 0\<rparr>,
      pic = \<lparr>mask_bits = 0, pending_bits = 0, last_event_cycle = (\<lambda>_. 0),
              samples_count = (\<lambda>_. 0), samples_mean = (\<lambda>_. ld_zero fp),
              samples_m2 = (\<lambda>_. ld_zero fp)\<rparr>,
      global_cycles = 0\<rparr>"

subsection \<open>The test harness\<close>

text \<open>
  \<^verbatim>\<open>main\<close> under \<^verbatim>\<open>BUILD_TEST_HARNESS\<close>: reset, write \<^verbatim>\<open>PERIOD = 10\<close> and
  \<^verbatim>\<open>CTRL = 0x3\<close>, then 1000 times tick and acknowledge whatever vector is pending.
  \<open>harness_step\<close> is the body of the loop, \<open>harness_loop n\<close> is \<open>n\<close> iterations.
\<close>

definition harness_step :: "'f ld_ops \<Rightarrow> 'f iosub \<Rightarrow> 'f iosub" where
  "harness_step fp s =
     (let s1 = iosub_tick s;
          v = iosub_irq_pending s1
      in if 0 \<le>s v then snd (iosub_ack_irq fp v s1) else s1)"

fun harness_loop :: "'f ld_ops \<Rightarrow> nat \<Rightarrow> 'f iosub \<Rightarrow> 'f iosub" where
  "harness_loop fp 0 s = s"
| "harness_loop fp (Suc n) s = harness_loop fp n (harness_step fp s)"

definition harness_setup :: "'f ld_ops \<Rightarrow> 'f iosub \<Rightarrow> 'f iosub" where
  "harness_setup fp s =
     iosub_write32 fp (TIMER_BASE + TIMER_OFF_CTRL) 0x3
       (iosub_write32 fp (TIMER_BASE + TIMER_OFF_PERIOD) 10
         (iosub_init_default fp s))"

definition harness_main :: "'f ld_ops \<Rightarrow> 'f iosub \<Rightarrow> 'f iosub" where
  "harness_main fp s = harness_loop fp 1000 (harness_setup fp s)"

subsection \<open>Sequences of calls\<close>

text \<open>
  The driving core uses the subsystem through a sequence of calls. The reads and
  \<^verbatim>\<open>irq_pending\<close> leave the state alone, so a history is a list of the calls that can
  change it. \<open>run_calls\<close> applies them in order, the first call of the list first.
\<close>

datatype call =
  Tick
| AckIrq u32
| Write8 u32 u8
| Write16 u32 u16
| Write32 u32 u32
| InitDefault

fun apply_call :: "'f ld_ops \<Rightarrow> call \<Rightarrow> 'f iosub \<Rightarrow> 'f iosub" where
  "apply_call fp Tick s = iosub_tick s"
| "apply_call fp (AckIrq v) s = snd (iosub_ack_irq fp v s)"
| "apply_call fp (Write8 a v) s = iosub_write8 fp a v s"
| "apply_call fp (Write16 a v) s = iosub_write16 fp a v s"
| "apply_call fp (Write32 a v) s = iosub_write32 fp a v s"
| "apply_call fp InitDefault s = iosub_init_default fp s"

fun run_calls :: "'f ld_ops \<Rightarrow> call list \<Rightarrow> 'f iosub \<Rightarrow> 'f iosub" where
  "run_calls fp [] s = s"
| "run_calls fp (c # cs) s = run_calls fp cs (apply_call fp c s)"

text \<open>The number of tick calls since the last reset.\<close>

fun ticks_since_init :: "call list \<Rightarrow> nat" where
  "ticks_since_init [] = 0"
| "ticks_since_init (c # cs) =
     (if InitDefault \<in> set cs then ticks_since_init cs
      else (if c = Tick then 1 else 0) + ticks_since_init cs)"

text \<open>
  The slots 32 to 63 of the three statistics arrays still hold what the reset left there.
\<close>

definition upper_stats_clear :: "'f ld_ops \<Rightarrow> 'f iosub \<Rightarrow> bool" where
  "upper_stats_clear fp s \<longleftrightarrow>
     (\<forall>i. 32 \<le> i \<longrightarrow>
        samples_count (pic s) i = 0 \<and> samples_mean (pic s) i = ld_zero fp \<and>
        samples_m2 (pic s) i = ld_zero fp)"

section \<open>Properties\<close>

lemmas config_defs =
  TIMER_BASE_def TIMER_SIZE_def PIC_BASE_def PIC_SIZE_def
  TIMER_OFF_CTRL_def TIMER_OFF_PERIOD_def TIMER_OFF_COUNT_def TIMER_OFF_STATUS_def
  PIC_OFF_MASK_def PIC_OFF_PENDING_def PIC_OFF_EOI_def PIC_OFF_PRIORITY_def
  VECTOR_TIMER_def

lemmas eval_defs =
  iosub_ack_irq_def pic_ack_def pic_record_latency_def Let_def
  iosub_tick_def timer_tick_def pic_signal_irq_def harness_setup_def iosub_write32_def
  mmio_write32_def in_range_def iosub_init_default_def pic_reset_def timer_reset_def
  config_defs word_sless_alt zero_state_def

subsection \<open>The firing cadence of the timer\<close>

lemma timer_pic_signal_irq: "timer (pic_signal_irq v s) = timer s"
  by (simp add: pic_signal_irq_def)

lemma timer_pic_record_latency: "timer (pic_record_latency fp v l s) = timer s"
  by (simp add: pic_record_latency_def Let_def)

lemma timer_pic_ack: "timer (pic_ack fp v s) = timer s"
  by (simp add: pic_ack_def Let_def timer_pic_record_latency)

lemma timer_iosub_ack_irq: "timer (snd (iosub_ack_irq fp v s)) = timer s"
  by (simp add: iosub_ack_irq_def timer_pic_ack)

lemma timer_harness_step: "timer (harness_step fp s) = timer (iosub_tick s)"
  by (simp add: harness_step_def Let_def timer_iosub_ack_irq)

lemma timer_tick_fire:
  assumes "enabled (timer s) \<noteq> 0" and "period (timer s) \<noteq> 0" and "count (timer s) = 0"
  shows "timer (iosub_tick s) = (timer s)\<lparr>count := period (timer s), status := 1,
           events_generated := events_generated (timer s) + 1\<rparr>"
  using assms by (simp add: iosub_tick_def timer_tick_def Let_def timer_pic_signal_irq)

lemma timer_tick_dec:
  assumes "enabled (timer s) \<noteq> 0" and "period (timer s) \<noteq> 0" and "count (timer s) \<noteq> 0"
  shows "timer (iosub_tick s) = (timer s)\<lparr>count := count (timer s) - 1\<rparr>"
  using assms by (simp add: iosub_tick_def timer_tick_def)

lemma harness_loop_add:
  "harness_loop fp (m + n) s = harness_loop fp n (harness_loop fp m s)"
  by (induction m arbitrary: s) simp_all

lemma harness_countdown_partial:
  assumes "enabled (timer s) \<noteq> 0" and "period (timer s) \<noteq> 0"
    and "k \<le> unat (count (timer s))"
  shows "timer (harness_loop fp k s) = (timer s)\<lparr>count := count (timer s) - of_nat k\<rparr>"
  using assms
proof (induction k arbitrary: s)
  case 0
  then show ?case by simp
next
  case (Suc k)
  let ?s' = "harness_step fp s"
  from Suc.prems have nz: "count (timer s) \<noteq> 0" by auto
  with Suc.prems have t': "timer ?s' = (timer s)\<lparr>count := count (timer s) - 1\<rparr>"
    by (simp add: timer_harness_step timer_tick_dec)
  from nz Suc.prems have "k \<le> unat (count (timer s) - 1)"
    by (simp add: unat_minus_one)
  with t' Suc.prems have "timer (harness_loop fp k ?s') =
      (timer ?s')\<lparr>count := count (timer ?s') - of_nat k\<rparr>"
    by (intro Suc.IH) simp_all
  with t' show ?case by (simp add: algebra_simps)
qed

lemma harness_countdown:
  assumes "enabled (timer s) \<noteq> 0" and "period (timer s) \<noteq> 0"
    and "unat (count (timer s)) = k"
  shows "timer (harness_loop fp k s) = (timer s)\<lparr>count := 0\<rparr>"
  using harness_countdown_partial [of s k fp] assms by auto

lemma harness_fire_cycle:
  assumes "enabled (timer s) \<noteq> 0" and "period (timer s) \<noteq> 0" and "count (timer s) = 0"
  shows "timer (harness_loop fp (Suc (unat (period (timer s)))) s) =
           (timer s)\<lparr>status := 1, events_generated := events_generated (timer s) + 1\<rparr>"
proof -
  let ?s' = "harness_step fp s"
  from assms have t': "timer ?s' = (timer s)\<lparr>count := period (timer s), status := 1,
           events_generated := events_generated (timer s) + 1\<rparr>"
    by (simp add: timer_harness_step timer_tick_fire)
  then have "timer (harness_loop fp (unat (period (timer s))) ?s') = (timer ?s')\<lparr>count := 0\<rparr>"
    using assms by (intro harness_countdown) simp_all
  with t' assms show ?thesis by simp
qed

lemma harness_fire_cycles:
  assumes "enabled (timer s) \<noteq> 0" and "period (timer s) \<noteq> 0" and "count (timer s) = 0"
    and "m > 0"
  shows "timer (harness_loop fp (m * Suc (unat (period (timer s)))) s) =
           (timer s)\<lparr>status := 1, events_generated := events_generated (timer s) + of_nat m\<rparr>"
  using assms
proof (induction m arbitrary: s)
  case 0
  then show ?case by simp
next
  case (Suc m)
  let ?P = "Suc (unat (period (timer s)))"
  let ?s' = "harness_loop fp ?P s"
  have t': "timer ?s' = (timer s)\<lparr>status := 1, events_generated := events_generated (timer s) + 1\<rparr>"
    using Suc.prems by (intro harness_fire_cycle) simp_all
  show ?case
  proof (cases "m = 0")
    case True
    with t' show ?thesis by simp
  next
    case False
    have split: "Suc m * ?P = ?P + m * ?P" by simp
    have "timer (harness_loop fp (m * Suc (unat (period (timer ?s')))) ?s') =
           (timer ?s')\<lparr>status := 1, events_generated := events_generated (timer ?s') + of_nat m\<rparr>"
      using Suc.prems t' False by (intro Suc.IH) simp_all
    with t' show ?thesis
      by (simp only: split harness_loop_add) (simp add: add.assoc add.commute)
  qed
qed

lemma timer_harness_setup:
  "timer (harness_setup fp s) = \<lparr>enabled = 1, irq_enable = 1, period = 10, count = 0,
     status = 0, events_generated = 0\<rparr>"
  by (simp add: harness_setup_def iosub_write32_def mmio_write32_def in_range_def
      iosub_init_default_def pic_reset_def timer_reset_def config_defs)

text \<open>
  C1. The claim: with the period register set to \<open>P > 0\<close> and the timer enabled,
  consecutive firings are \<open>P\<close> tick calls apart, and the harness (period 10, control
  3, 1000 ticks, every pending interrupt acknowledged at once) ends with 100 events.
  The code does otherwise: after a firing the counter is reloaded with \<open>P\<close> and takes
  \<open>P\<close> further ticks to reach 0, and only the tick after that fires, so firings are
  \<open>P + 1\<close> ticks apart (\<open>harness_fire_cycle\<close>). The harness ends with 91 events;
  call 11 does not fire (one event so far) and call 12 does.
\<close>

theorem harness_main_events:
  "events_generated (timer (harness_main fp s)) = 91 \<and>
   events_generated (timer (harness_loop fp 11 (harness_setup fp s))) = 1 \<and>
   events_generated (timer (harness_loop fp 12 (harness_setup fp s))) = 2"
proof -
  let ?s0 = "harness_setup fp s"
  have t0: "timer ?s0 = \<lparr>enabled = 1, irq_enable = 1, period = 10, count = 0,
     status = 0, events_generated = 0\<rparr>"
    by (rule timer_harness_setup)
  have cyc: "timer (harness_loop fp (m * 11) ?s0) =
      \<lparr>enabled = 1, irq_enable = 1, period = 10, count = 0,
       status = 1, events_generated = of_nat m\<rparr>" if "m > 0" for m
    using harness_fire_cycles [of ?s0 m fp] that by (simp add: t0)
  have nxt: "events_generated (timer (harness_loop fp (m * 11 + Suc k) ?s0)) = of_nat m + 1"
    if "m > 0" and "k \<le> 10" for m k
  proof -
    let ?s1 = "harness_loop fp (m * 11) ?s0"
    let ?s2 = "harness_step fp ?s1"
    have t2: "timer ?s2 = \<lparr>enabled = 1, irq_enable = 1, period = 10, count = 10,
       status = 1, events_generated = of_nat m + 1\<rparr>"
      using timer_tick_fire [of ?s1] by (simp add: timer_harness_step cyc [OF that(1)])
    have "timer (harness_loop fp k ?s2) = (timer ?s2)\<lparr>count := count (timer ?s2) - of_nat k\<rparr>"
      using that(2) by (intro harness_countdown_partial) (simp_all add: t2)
    then have "events_generated (timer (harness_loop fp k ?s2)) = of_nat m + 1"
      by (simp add: t2)
    then show ?thesis
      by (simp only: harness_loop_add harness_loop.simps)
  qed
  have "events_generated (timer (harness_loop fp (90 * 11 + Suc 9) ?s0)) = of_nat 90 + 1"
    by (rule nxt) simp_all
  then have a: "events_generated (timer (harness_main fp s)) = 91"
    by (simp add: harness_main_def)
  have b: "events_generated (timer (harness_loop fp 11 ?s0)) = 1"
    using cyc [of 1] by simp
  have "events_generated (timer (harness_loop fp (1 * 11 + Suc 0) ?s0)) = of_nat 1 + 1"
    by (rule nxt) simp_all
  then have c: "events_generated (timer (harness_loop fp 12 ?s0)) = 2"
    by simp
  from a b c show ?thesis by simp
qed

subsection \<open>Words\<close>

lemma lt_not_ge:
  fixes x :: "'a::len word"
  assumes "x < y"
  shows "\<not> x \<ge> y"
  using assms by (simp only: not_le)

lemma word_nonzero_bit:
  fixes w :: "'a::len word"
  assumes "w \<noteq> 0"
  obtains j where "bit w j"
proof -
  have "\<exists>j. bit w j"
  proof (rule ccontr)
    assume "\<not> (\<exists>j. bit w j)"
    then have "w = 0" by (intro bit_eqI) simp
    with assms show False by simp
  qed
  then show thesis using that by blast
qed

subsection \<open>Acknowledging a vector outside the range\<close>

text \<open>
  C2. The claim: for a vector that is negative or outside 0..31, \<^verbatim>\<open>ack_irq\<close> returns 0
  (not accepted) and changes nothing. The state is indeed left alone, and a negative
  vector is refused (\<open>ack_irq_negative\<close>). A vector of 32 or more is not refused:
  \<^verbatim>\<open>iosub_ack_irq\<close> tests only the sign, \<^verbatim>\<open>pic_ack\<close> drops the vector without a
  word, and the function returns 1. At vector 32, for every state:
\<close>

theorem ack_irq_out_of_range_accepted:
  "iosub_ack_irq fp 32 s = (1, s)"
  by (simp add: iosub_ack_irq_def pic_ack_def word_sless_alt)

lemma ack_irq_negative: "vector <s 0 \<Longrightarrow> iosub_ack_irq fp vector s = (0, s)"
  by (simp add: iosub_ack_irq_def)

lemma ack_irq_above: "\<not> vector <s 0 \<Longrightarrow> vector \<ge> 32 \<Longrightarrow> iosub_ack_irq fp vector s = (1, s)"
  by (simp add: iosub_ack_irq_def pic_ack_def)

subsection \<open>Acknowledging and the latency statistics\<close>

lemma ack_in_range_not_negative:
  fixes vector :: u32
  assumes "vector < 32"
  shows "\<not> vector <s 0"
proof -
  from assms have u: "uint vector < 32" by (simp add: word_less_alt)
  have z: "0 \<le> uint vector" by simp
  have "signed_take_bit (31::nat) (uint vector) = uint vector"
  proof (rule signed_take_bit_int_eq_self)
    have p: "(2::int) ^ 31 = 2147483648" by simp
    from z show "- (2 ^ 31) \<le> uint vector" unfolding p by linarith
    from u show "uint vector < 2 ^ 31" unfolding p by linarith
  qed
  then have "sint vector = uint vector"
    by (simp add: sint_uint)
  then show ?thesis
    by (simp add: word_sless_alt)
qed

lemma ack_irq_in_range:
  fixes vector :: u32
  assumes "vector < 32"
  shows "iosub_ack_irq fp vector s = (1, pic_ack fp vector s)"
  using ack_in_range_not_negative [OF assms] by (simp add: iosub_ack_irq_def)

lemma pic_ack_no_event:
  fixes vector :: u32
  assumes "vector < 32" and "last_event_cycle (pic s) (unat vector) = 0"
  shows "pic_ack fp vector s =
    s\<lparr>pic := (pic s)\<lparr>pending_bits := pending_bits (pic s) AND NOT (push_bit (unat vector) 1)\<rparr>\<rparr>"
  using assms lt_not_ge [OF assms(1)] by (simp add: pic_ack_def)

lemma pic_ack_event:
  fixes vector :: u32
  assumes "vector < 32" and "last_event_cycle (pic s) (unat vector) \<noteq> 0"
  shows "pic_ack fp vector s =
    (pic_record_latency fp vector (global_cycles s - last_event_cycle (pic s) (unat vector)) s)
      \<lparr>pic := (pic (pic_record_latency fp vector
                 (global_cycles s - last_event_cycle (pic s) (unat vector)) s))
          \<lparr>pending_bits := pending_bits (pic s) AND NOT (push_bit (unat vector) 1)\<rparr>\<rparr>"
proof -
  from assms(1) have "vector < 64"
    by (simp add: word_less_nat_alt)
  from assms(2) lt_not_ge [OF assms(1)] lt_not_ge [OF this] show ?thesis
    by (simp add: pic_ack_def pic_record_latency_def Let_def)
qed

lemma record_latency_fields:
  fixes vector :: u32
  assumes "vector < 64"
  shows "samples_count (pic (pic_record_latency fp vector l s)) (unat vector) =
           samples_count (pic s) (unat vector) + 1"
    and "last_event_cycle (pic (pic_record_latency fp vector l s)) = last_event_cycle (pic s)"
    and "pending_bits (pic (pic_record_latency fp vector l s)) = pending_bits (pic s)"
    and "global_cycles (pic_record_latency fp vector l s) = global_cycles s"
  using lt_not_ge [OF assms] by (simp_all add: pic_record_latency_def Let_def)

text \<open>
  The claim C3 as it is written fails on the code. One firing: reset, period 10, control
  3, one tick (the timer fires at cycle 1). The first \<^verbatim>\<open>ack_irq(0)\<close> adds a sample, and
  so does the second, since the recorded cycle is never cleared.
\<close>

theorem ack_twice_counterexample:
  "samples_count (pic (iosub_tick (harness_setup real_ld (zero_state real_ld)))) 0 = 0 \<and>
   samples_count (pic (snd (iosub_ack_irq real_ld 0
     (iosub_tick (harness_setup real_ld (zero_state real_ld)))))) 0 = 1 \<and>
   samples_count (pic (snd (iosub_ack_irq real_ld 0 (snd (iosub_ack_irq real_ld 0
     (iosub_tick (harness_setup real_ld (zero_state real_ld)))))))) 0 = 2"
  by (simp add: iosub_ack_irq_def pic_ack_def pic_record_latency_def Let_def
      iosub_tick_def timer_tick_def pic_signal_irq_def harness_setup_def iosub_write32_def
      mmio_write32_def in_range_def iosub_init_default_def pic_reset_def timer_reset_def
      config_defs word_sless_alt)

text \<open>
  C3, amended. For a vector in 0..31: when no firing is recorded (the slot of
  \<^verbatim>\<open>last_event_cycle\<close> is 0) \<^verbatim>\<open>ack_irq\<close> is accepted and changes none of the
  statistics arrays; when a firing is recorded, \<^verbatim>\<open>ack_irq\<close> keeps the recorded cycle and
  adds one sample, so a second call right after it adds a second sample of the same
  latency, and the count has grown by 2.
\<close>

theorem ack_irq_statistics:
  fixes vector :: u32
  assumes "vector < 32"
  shows
    "(last_event_cycle (pic s) (unat vector) = 0 \<longrightarrow>
        fst (iosub_ack_irq fp vector s) = 1 \<and>
        samples_count (pic (snd (iosub_ack_irq fp vector s))) = samples_count (pic s) \<and>
        samples_mean (pic (snd (iosub_ack_irq fp vector s))) = samples_mean (pic s) \<and>
        samples_m2 (pic (snd (iosub_ack_irq fp vector s))) = samples_m2 (pic s) \<and>
        last_event_cycle (pic (snd (iosub_ack_irq fp vector s))) = last_event_cycle (pic s)) \<and>
     (last_event_cycle (pic s) (unat vector) \<noteq> 0 \<longrightarrow>
        last_event_cycle (pic (snd (iosub_ack_irq fp vector s))) = last_event_cycle (pic s) \<and>
        samples_count (pic (snd (iosub_ack_irq fp vector s))) (unat vector) =
          samples_count (pic s) (unat vector) + 1 \<and>
        snd (iosub_ack_irq fp vector (snd (iosub_ack_irq fp vector s))) =
          pic_record_latency fp vector
            (global_cycles s - last_event_cycle (pic s) (unat vector))
            (snd (iosub_ack_irq fp vector s)) \<and>
        samples_count (pic (snd (iosub_ack_irq fp vector (snd (iosub_ack_irq fp vector s)))))
            (unat vector) = samples_count (pic s) (unat vector) + 2)"
proof (intro conjI impI)
  assume e: "last_event_cycle (pic s) (unat vector) = 0"
  have a: "iosub_ack_irq fp vector s = (1, s\<lparr>pic := (pic s)\<lparr>pending_bits :=
      pending_bits (pic s) AND NOT (push_bit (unat vector) 1)\<rparr>\<rparr>)"
    by (simp add: ack_irq_in_range [OF assms] pic_ack_no_event [OF assms e])
  show "fst (iosub_ack_irq fp vector s) = 1"
    and "samples_count (pic (snd (iosub_ack_irq fp vector s))) = samples_count (pic s)"
    and "samples_mean (pic (snd (iosub_ack_irq fp vector s))) = samples_mean (pic s)"
    and "samples_m2 (pic (snd (iosub_ack_irq fp vector s))) = samples_m2 (pic s)"
    and "last_event_cycle (pic (snd (iosub_ack_irq fp vector s))) = last_event_cycle (pic s)"
    by (simp_all add: a)
next
  assume e: "last_event_cycle (pic s) (unat vector) \<noteq> 0"
  let ?l = "global_cycles s - last_event_cycle (pic s) (unat vector)"
  let ?r = "pic_record_latency fp vector ?l s"
  let ?s1 = "pic_ack fp vector s"
  have ack: "snd (iosub_ack_irq fp vector x) = pic_ack fp vector x" for x
    by (simp add: ack_irq_in_range [OF assms])
  from assms have v64: "vector < 64"
    by (simp add: word_less_nat_alt)
  have s1: "?s1 = ?r\<lparr>pic := (pic ?r)\<lparr>pending_bits :=
      pending_bits (pic s) AND NOT (push_bit (unat vector) 1)\<rparr>\<rparr>"
    by (rule pic_ack_event [OF assms e])
  have le1: "last_event_cycle (pic ?s1) = last_event_cycle (pic s)"
    by (simp add: s1 record_latency_fields [OF v64])
  have c1: "samples_count (pic ?s1) (unat vector) = samples_count (pic s) (unat vector) + 1"
    by (simp add: s1 record_latency_fields [OF v64])
  have g1: "global_cycles ?s1 = global_cycles s"
    by (simp add: s1 record_latency_fields [OF v64])
  have p1: "pending_bits (pic ?s1) = pending_bits (pic s) AND NOT (push_bit (unat vector) 1)"
    by (simp add: s1)
  from e le1 have e1: "last_event_cycle (pic ?s1) (unat vector) \<noteq> 0"
    by simp
  let ?r2 = "pic_record_latency fp vector ?l ?s1"
  have "pic_ack fp vector ?s1 = ?r2\<lparr>pic := (pic ?r2)\<lparr>pending_bits :=
      pending_bits (pic ?s1) AND NOT (push_bit (unat vector) 1)\<rparr>\<rparr>"
    using pic_ack_event [OF assms e1, of fp] by (simp only: g1 le1)
  also have "\<dots> = ?r2"
    by (simp add: p1 record_latency_fields(3) [OF v64])
  finally have s2: "pic_ack fp vector ?s1 = ?r2" .
  have c2: "samples_count (pic (pic_ack fp vector ?s1)) (unat vector) =
      samples_count (pic s) (unat vector) + 2"
    by (simp add: s2 record_latency_fields(1) [OF v64] c1)
  show "last_event_cycle (pic (snd (iosub_ack_irq fp vector s))) = last_event_cycle (pic s)"
    unfolding ack by (rule le1)
  show "samples_count (pic (snd (iosub_ack_irq fp vector s))) (unat vector) =
          samples_count (pic s) (unat vector) + 1"
    unfolding ack by (rule c1)
  show "snd (iosub_ack_irq fp vector (snd (iosub_ack_irq fp vector s))) =
          pic_record_latency fp vector
            (global_cycles s - last_event_cycle (pic s) (unat vector))
            (snd (iosub_ack_irq fp vector s))"
    unfolding ack by (rule s2)
  show "samples_count (pic (snd (iosub_ack_irq fp vector (snd (iosub_ack_irq fp vector s)))))
            (unat vector) = samples_count (pic s) (unat vector) + 2"
    unfolding ack by (rule c2)
qed

theorem ack_irq_statistics_witness:
  "(3::u32) < 32 \<and> last_event_cycle (pic (zero_state real_ld)) (unat (3::u32)) = 0 \<and>
   fst (iosub_ack_irq real_ld 3 (zero_state real_ld)) = 1 \<and>
   samples_count (pic (snd (iosub_ack_irq real_ld 3 (zero_state real_ld)))) =
     samples_count (pic (zero_state real_ld)) \<and>
   (0::u32) < 32 \<and>
   last_event_cycle (pic (iosub_tick (harness_setup real_ld (zero_state real_ld))))
     (unat (0::u32)) \<noteq> 0 \<and>
   samples_count (pic (snd (iosub_ack_irq real_ld 0 (snd (iosub_ack_irq real_ld 0
     (iosub_tick (harness_setup real_ld (zero_state real_ld)))))))) (unat (0::u32)) =
     samples_count (pic (iosub_tick (harness_setup real_ld (zero_state real_ld))))
       (unat (0::u32)) + 2"
proof -
  let ?z = "zero_state real_ld"
  let ?t = "iosub_tick (harness_setup real_ld (zero_state real_ld))"
  have v3: "(3::u32) < 32" and v0: "(0::u32) < 32" by simp_all
  have e3: "last_event_cycle (pic ?z) (unat (3::u32)) = 0"
    by (simp add: zero_state_def)
  have e0: "last_event_cycle (pic ?t) (unat (0::u32)) \<noteq> 0"
    by (simp add: eval_defs)
  note a = ack_irq_statistics [OF v3, of ?z real_ld, THEN conjunct1, THEN mp, OF e3]
  note b = ack_irq_statistics [OF v0, of ?t real_ld, THEN conjunct2, THEN mp, OF e0]
  from v3 e3 a v0 e0 b show ?thesis
    by (intro conjI) (erule conjE | assumption)+
qed

subsection \<open>Signalling a vector outside the range\<close>

text \<open>
  The claim C4 as it is written fails on the code: the guard of \<^verbatim>\<open>pic_signal_irq\<close> is
  \<^verbatim>\<open>vector >= 64\<close>, so vector 32 is not dropped. After one tick from reset (cycle 1),
  signalling vector 32 sets pending bit 0 and records cycle 1 in slot 32.
\<close>

theorem signal_irq_32_counterexample:
  "pending_bits (pic (iosub_tick (zero_state real_ld))) = 0 \<and>
   last_event_cycle (pic (iosub_tick (zero_state real_ld))) 32 = 0 \<and>
   pending_bits (pic (pic_signal_irq 32 (iosub_tick (zero_state real_ld)))) = 1 \<and>
   last_event_cycle (pic (pic_signal_irq 32 (iosub_tick (zero_state real_ld)))) 32 = 1"
  by (simp add: pic_signal_irq_def iosub_tick_def timer_tick_def zero_state_def)

text \<open>
  C4, amended. A vector of 64 or more is dropped and the state is left as it was. A
  vector below 64 (so also one in 32..63) sets the pending bit \<open>vector mod 32\<close> and
  records the current cycle in its own slot.
\<close>

theorem signal_irq_dropped:
  "(vector \<ge> 64 \<longrightarrow> pic_signal_irq vector s = s) \<and>
   (vector < 64 \<longrightarrow>
      pending_bits (pic (pic_signal_irq vector s)) =
        pending_bits (pic s) OR push_bit (unat vector mod 32) 1 \<and>
      last_event_cycle (pic (pic_signal_irq vector s)) (unat vector) = global_cycles s)"
proof (intro conjI impI)
  assume "vector \<ge> 64"
  then show "pic_signal_irq vector s = s"
    by (simp add: pic_signal_irq_def)
next
  assume "vector < 64"
  then have lt: "\<not> vector \<ge> 64"
    by (simp only: not_le)
  from lt show "pending_bits (pic (pic_signal_irq vector s)) =
        pending_bits (pic s) OR push_bit (unat vector mod 32) 1"
    by (simp add: pic_signal_irq_def unat_mod)
  from lt show "last_event_cycle (pic (pic_signal_irq vector s)) (unat vector) = global_cycles s"
    by (simp add: pic_signal_irq_def)
qed

theorem signal_irq_dropped_witness:
  "(64 :: u32) \<ge> 64 \<and> pic_signal_irq 64 (zero_state real_ld) = zero_state real_ld \<and>
   (33 :: u32) < 64 \<and>
   pending_bits (pic (pic_signal_irq 33 (zero_state real_ld))) = 2 \<and>
   last_event_cycle (pic (pic_signal_irq 33 (zero_state real_ld))) 33 = 0"
  using signal_irq_dropped [of 64 "zero_state real_ld"]
    signal_irq_dropped [of 33 "zero_state real_ld"]
  by (simp add: zero_state_def)

subsection \<open>Sub-word writes to the pending register\<close>

lemma lane_clear:
  "(old :: u32) AND NOT ((old AND NOT m) OR x) = (old AND m) AND NOT x"
  by (rule bit_eqI) (auto simp add: bit_simps)

lemma pending_write8_at:
  assumes "addr AND NOT 3 = PIC_BASE + PIC_OFF_PENDING"
  shows "pending_bits (pic (iosub_write8 fp addr v s)) =
     (pending_bits (pic s) AND push_bit (unat ((addr AND 3) * 8)) 0xFF)
       AND NOT (push_bit (unat ((addr AND 3) * 8)) (ucast v))"
proof -
  have "pending_bits (pic (iosub_write8 fp addr v s)) =
     pending_bits (pic s) AND NOT ((pending_bits (pic s) AND NOT (push_bit (unat ((addr AND 3) * 8)) 0xFF))
       OR push_bit (unat ((addr AND 3) * 8)) (ucast v))"
    using assms
    by (simp add: iosub_write8_def Let_def mmio_read32_def mmio_write32_def in_range_def
        config_defs)
  then show ?thesis
    by (simp only: lane_clear)
qed

lemma pending_write16_at:
  assumes "addr AND NOT 3 = PIC_BASE + PIC_OFF_PENDING"
  shows "pending_bits (pic (iosub_write16 fp addr v s)) =
     (pending_bits (pic s) AND push_bit (unat ((addr AND 2) * 8)) 0xFFFF)
       AND NOT (push_bit (unat ((addr AND 2) * 8)) (ucast v))"
proof -
  have "pending_bits (pic (iosub_write16 fp addr v s)) =
     pending_bits (pic s) AND NOT ((pending_bits (pic s) AND NOT (push_bit (unat ((addr AND 2) * 8)) 0xFFFF))
       OR push_bit (unat ((addr AND 2) * 8)) (ucast v))"
    using assms
    by (simp add: iosub_write16_def Let_def mmio_read32_def mmio_write32_def in_range_def
        config_defs)
  then show ?thesis
    by (simp only: lane_clear)
qed

text \<open>
  C5. A byte write at offset \<open>k\<close> in 0..3 of the pending register leaves
  \<open>(old AND (0xFF << 8k)) AND NOT (v << 8k)\<close>: the read-modify-write hands the old
  pending bits of the other lanes back to the write-1-to-clear port, which clears them.
  A half-word write does the same with the 16-bit lane that holds the address.
\<close>

theorem pending_subword_write_clears_other_lanes:
  assumes "k < 4"
  shows "pending_bits (pic (iosub_write8 fp (PIC_BASE + PIC_OFF_PENDING + of_nat k) v8 s)) =
           (pending_bits (pic s) AND push_bit (8 * k) 0xFF) AND NOT (push_bit (8 * k) (ucast v8)) \<and>
         pending_bits (pic (iosub_write16 fp (PIC_BASE + PIC_OFF_PENDING + of_nat k) v16 s)) =
           (pending_bits (pic s) AND push_bit (16 * (k div 2)) 0xFFFF)
             AND NOT (push_bit (16 * (k div 2)) (ucast v16))"
proof -
  from assms consider "k = 0" | "k = 1" | "k = 2" | "k = 3" by linarith
  then show ?thesis
  proof cases
    case 1
    then show ?thesis
      using pending_write8_at [of "PIC_BASE + PIC_OFF_PENDING" fp v8 s]
        pending_write16_at [of "PIC_BASE + PIC_OFF_PENDING" fp v16 s]
      by (simp add: config_defs)
  next
    case 2
    then show ?thesis
      using pending_write8_at [of "PIC_BASE + PIC_OFF_PENDING + 1" fp v8 s]
        pending_write16_at [of "PIC_BASE + PIC_OFF_PENDING + 1" fp v16 s]
      by (simp add: config_defs)
  next
    case 3
    then show ?thesis
      using pending_write8_at [of "PIC_BASE + PIC_OFF_PENDING + 2" fp v8 s]
        pending_write16_at [of "PIC_BASE + PIC_OFF_PENDING + 2" fp v16 s]
      by (simp add: config_defs)
  next
    case 4
    then show ?thesis
      using pending_write8_at [of "PIC_BASE + PIC_OFF_PENDING + 3" fp v8 s]
        pending_write16_at [of "PIC_BASE + PIC_OFF_PENDING + 3" fp v16 s]
      by (simp add: config_defs)
  qed
qed

theorem pending_subword_write_witness:
  "(1::nat) < 4 \<and>
   pending_bits (pic (pic_signal_irq 17 (pic_signal_irq 9 (pic_signal_irq 0
     (zero_state real_ld))))) = 0x20201 \<and>
   pending_bits (pic (iosub_write8 real_ld (PIC_BASE + PIC_OFF_PENDING + 1) 0
     (pic_signal_irq 17 (pic_signal_irq 9 (pic_signal_irq 0 (zero_state real_ld)))))) = 0x200 \<and>
   pending_bits (pic (iosub_write16 real_ld (PIC_BASE + PIC_OFF_PENDING + 1) 1
     (pic_signal_irq 17 (pic_signal_irq 9 (pic_signal_irq 0 (zero_state real_ld)))))) = 0x200"
proof -
  let ?s = "pic_signal_irq 17 (pic_signal_irq 9 (pic_signal_irq 0 (zero_state real_ld)))"
  have p: "pending_bits (pic ?s) = 0x20201"
    by (simp add: pic_signal_irq_def zero_state_def)
  have k: "(1::nat) < 4" by simp
  from pending_subword_write_clears_other_lanes [OF k, of real_ld 0 ?s 1]
  show ?thesis
    by (simp add: p)
qed

subsection \<open>The pending vector\<close>

lemma ctz_scan_least:
  assumes "bit w j" and "i \<le> j" and "j < i + fuel"
  shows "bit w (ctz_scan fuel i w) \<and> i \<le> ctz_scan fuel i w \<and> ctz_scan fuel i w \<le> j \<and>
         (\<forall>m. i \<le> m \<and> m < ctz_scan fuel i w \<longrightarrow> \<not> bit w m)"
  using assms
proof (induction fuel arbitrary: i)
  case 0
  then show ?case by simp
next
  case (Suc fuel)
  show ?case
  proof (cases "bit w i")
    case True
    with Suc.prems show ?thesis by auto
  next
    case False
    with Suc.prems have "i \<noteq> j" by auto
    with Suc.prems have "Suc i \<le> j" "j < Suc i + fuel" by simp_all
    from Suc.IH [OF Suc.prems(1) this]
    have ih: "bit w (ctz_scan fuel (Suc i) w)" "Suc i \<le> ctz_scan fuel (Suc i) w"
      "ctz_scan fuel (Suc i) w \<le> j"
      "\<forall>m. Suc i \<le> m \<and> m < ctz_scan fuel (Suc i) w \<longrightarrow> \<not> bit w m"
      by simp_all
    have "\<not> bit w m" if "i \<le> m" "m < ctz_scan fuel (Suc i) w" for m
    proof (cases "m = i")
      case True
      with False show ?thesis by simp
    next
      case False
      with that ih(4) show ?thesis by (simp add: Suc_leI le_neq_implies_less)
    qed
    with False ih show ?thesis by simp
  qed
qed

lemma builtin_ctz_props:
  assumes "bit w j"
  shows "bit w (builtin_ctz w)" and "builtin_ctz w \<le> j"
    and "\<forall>m. m < builtin_ctz w \<longrightarrow> \<not> bit w m"
proof -
  have "j < 32"
    using bit_imp_le_length [OF assms] by simp
  then have "j < 0 + 32" by simp
  from ctz_scan_least [OF assms le0 this]
  show "bit w (builtin_ctz w)" and "builtin_ctz w \<le> j"
    and "\<forall>m. m < builtin_ctz w \<longrightarrow> \<not> bit w m"
    unfolding builtin_ctz_def by (auto simp del: ctz_scan.simps)
qed

lemma builtin_ctz_Least:
  assumes "w \<noteq> 0"
  shows "builtin_ctz w = (LEAST i. bit w i)" and "builtin_ctz w < 32"
proof -
  from assms obtain j where j: "bit w j"
    by (rule word_nonzero_bit)
  then have "j < 32"
    using bit_imp_le_length [of w j] by simp
  with builtin_ctz_props(2) [OF j] show "builtin_ctz w < 32"
    by simp
  have "(LEAST i. bit w i) = builtin_ctz w"
  proof (rule Least_equality)
    show "bit w (builtin_ctz w)" by (rule builtin_ctz_props(1) [OF j])
  next
    fix y assume "bit w y"
    then show "builtin_ctz w \<le> y" by (rule builtin_ctz_props(2))
  qed
  then show "builtin_ctz w = (LEAST i. bit w i)"
    by simp
qed

text \<open>
  C6. \<^verbatim>\<open>irq_pending\<close> computes \<open>pending_bits AND NOT mask_bits\<close>; it returns \<open>-1\<close>
  when that is zero and otherwise the index of its lowest set bit: the bit at the
  returned index is set and no bit below it is. With the pending bits 0 and 5 set and
  unmasked it returns 0.
\<close>

theorem irq_pending_lowest_unmasked:
  "iosub_irq_pending s =
     (if pending_bits (pic s) AND NOT (mask_bits (pic s)) = 0 then - 1
      else of_nat (LEAST i. bit (pending_bits (pic s) AND NOT (mask_bits (pic s))) i)) \<and>
   (pending_bits (pic s) AND NOT (mask_bits (pic s)) \<noteq> 0 \<longrightarrow>
      (LEAST i. bit (pending_bits (pic s) AND NOT (mask_bits (pic s))) i) < 32 \<and>
      bit (pending_bits (pic s) AND NOT (mask_bits (pic s))) (unat (iosub_irq_pending s)) \<and>
      (\<forall>m < unat (iosub_irq_pending s).
          \<not> bit (pending_bits (pic s) AND NOT (mask_bits (pic s))) m)) \<and>
   (bit (pending_bits (pic s)) 0 \<and> bit (pending_bits (pic s)) 5 \<and>
    \<not> bit (mask_bits (pic s)) 0 \<and> \<not> bit (mask_bits (pic s)) 5 \<longrightarrow>
      iosub_irq_pending s = 0)"
proof -
  let ?p = "pending_bits (pic s) AND NOT (mask_bits (pic s))"
  have a: "iosub_irq_pending s = (if ?p = 0 then - 1 else of_nat (LEAST i. bit ?p i))"
    by (simp add: iosub_irq_pending_def pic_get_pending_vector_def Let_def builtin_ctz_Least(1))
  have b: "?p \<noteq> 0 \<longrightarrow> (LEAST i. bit ?p i) < 32 \<and> bit ?p (unat (iosub_irq_pending s)) \<and>
      (\<forall>m < unat (iosub_irq_pending s). \<not> bit ?p m)"
  proof (rule impI)
    assume nz: "?p \<noteq> 0"
    from nz obtain j where j: "bit ?p j"
      by (rule word_nonzero_bit)
    have lt: "(LEAST i. bit ?p i) < 32"
      using builtin_ctz_Least [OF nz] by simp
    have "iosub_irq_pending s = of_nat (LEAST i. bit ?p i)"
      using nz a by simp
    then have "unat (iosub_irq_pending s) = (LEAST i. bit ?p i) mod 2 ^ 32"
      by (simp only: unat_of_nat) simp
    with lt have u: "unat (iosub_irq_pending s) = (LEAST i. bit ?p i)"
      by simp
    from j have l1: "bit ?p (LEAST i. bit ?p i)" by (rule LeastI)
    show "(LEAST i. bit ?p i) < 32 \<and> bit ?p (unat (iosub_irq_pending s)) \<and>
      (\<forall>m < unat (iosub_irq_pending s). \<not> bit ?p m)"
      unfolding u
    proof (intro conjI allI impI)
      show "(LEAST i. bit ?p i) < 32" by (rule lt)
      show "bit ?p (LEAST i. bit ?p i)" by (rule l1)
      fix m
      assume "m < (LEAST i. bit ?p i)"
      then show "\<not> bit ?p m" by (rule not_less_Least)
    qed
  qed
  have c: "bit (pending_bits (pic s)) 0 \<and> bit (pending_bits (pic s)) 5 \<and>
        \<not> bit (mask_bits (pic s)) 0 \<and> \<not> bit (mask_bits (pic s)) 5 \<longrightarrow>
        iosub_irq_pending s = 0"
  proof (rule impI)
    assume "bit (pending_bits (pic s)) 0 \<and> bit (pending_bits (pic s)) 5 \<and>
        \<not> bit (mask_bits (pic s)) 0 \<and> \<not> bit (mask_bits (pic s)) 5"
    then have b0: "bit ?p 0" by (simp add: bit_simps)
    then have nz: "?p \<noteq> 0" by auto
    from b0 have "(LEAST i. bit ?p i) = 0" by (simp add: Least_eq_0)
    with nz show "iosub_irq_pending s = 0" by (simp add: a)
  qed
  from a b c show ?thesis by - (intro conjI; assumption)
qed

theorem irq_pending_lowest_unmasked_witness:
  "bit (pending_bits (pic (pic_signal_irq 5 (pic_signal_irq 0 (zero_state real_ld))))) 0 \<and>
   bit (pending_bits (pic (pic_signal_irq 5 (pic_signal_irq 0 (zero_state real_ld))))) 5 \<and>
   \<not> bit (mask_bits (pic (pic_signal_irq 5 (pic_signal_irq 0 (zero_state real_ld))))) 0 \<and>
   \<not> bit (mask_bits (pic (pic_signal_irq 5 (pic_signal_irq 0 (zero_state real_ld))))) 5 \<and>
   pending_bits (pic (pic_signal_irq 5 (pic_signal_irq 0 (zero_state real_ld)))) AND
     NOT (mask_bits (pic (pic_signal_irq 5 (pic_signal_irq 0 (zero_state real_ld))))) \<noteq> 0 \<and>
   iosub_irq_pending (pic_signal_irq 5 (pic_signal_irq 0 (zero_state real_ld))) = 0 \<and>
   bit (pending_bits (pic (pic_signal_irq 5 (pic_signal_irq 0 (zero_state real_ld)))) AND
     NOT (mask_bits (pic (pic_signal_irq 5 (pic_signal_irq 0 (zero_state real_ld))))))
     (unat (iosub_irq_pending (pic_signal_irq 5 (pic_signal_irq 0 (zero_state real_ld)))))"
proof -
  let ?s = "pic_signal_irq 5 (pic_signal_irq 0 (zero_state real_ld))"
  have p: "pending_bits (pic ?s) = 0x21" and m: "mask_bits (pic ?s) = 0"
    by (simp_all add: pic_signal_irq_def zero_state_def)
  have h: "bit (pending_bits (pic ?s)) 0 \<and> bit (pending_bits (pic ?s)) 5 \<and>
    \<not> bit (mask_bits (pic ?s)) 0 \<and> \<not> bit (mask_bits (pic ?s)) 5"
    by (simp add: p m bit_numeral_word_iff)
  have nz: "pending_bits (pic ?s) AND NOT (mask_bits (pic ?s)) \<noteq> 0"
    by (simp add: p m)
  note t = irq_pending_lowest_unmasked [of ?s]
  have r: "iosub_irq_pending ?s = 0"
    by (rule t [THEN conjunct2, THEN conjunct2, THEN mp, OF h])
  have b: "bit (pending_bits (pic ?s) AND NOT (mask_bits (pic ?s)))
      (unat (iosub_irq_pending ?s))"
    by (rule t [THEN conjunct2, THEN conjunct1, THEN mp, OF nz, THEN conjunct2, THEN conjunct1])
  from h nz r b show ?thesis
    by (intro conjI) (erule conjE | assumption)+
qed

subsection \<open>The statistics query\<close>

lemma upper_zero_state: "upper_stats_clear fp (zero_state fp)"
  by (simp add: upper_stats_clear_def zero_state_def)

lemma init_default_zero_state: "iosub_init_default fp s = zero_state fp"
  by (simp add: iosub_init_default_def pic_reset_def timer_reset_def zero_state_def)

lemma upper_pic_signal_irq:
  "upper_stats_clear fp s \<Longrightarrow> upper_stats_clear fp (pic_signal_irq v s)"
  by (simp add: upper_stats_clear_def pic_signal_irq_def)

lemma upper_timer_tick:
  "upper_stats_clear fp s \<Longrightarrow> upper_stats_clear fp (timer_tick s)"
  using upper_pic_signal_irq [of fp _ "VECTOR_TIMER mod 32"]
  by (simp add: timer_tick_def Let_def upper_stats_clear_def pic_signal_irq_def)

lemma upper_iosub_tick:
  "upper_stats_clear fp s \<Longrightarrow> upper_stats_clear fp (iosub_tick s)"
  unfolding iosub_tick_def by (rule upper_timer_tick) (simp add: upper_stats_clear_def)

lemma upper_pic_ack:
  assumes "upper_stats_clear fp s"
  shows "upper_stats_clear fp (pic_ack fp v s)"
proof (cases "v \<ge> 32")
  case True
  with assms show ?thesis by (simp add: pic_ack_def)
next
  case False
  then have v: "v < 32" by (simp only: not_le)
  then have u: "unat v < 32" by (simp add: word_less_nat_alt)
  from v have "v < 64" by (simp add: word_less_nat_alt)
  then have n64: "\<not> v \<ge> 64" by (rule lt_not_ge)
  from assms False n64 u show ?thesis
    by (auto simp add: pic_ack_def pic_record_latency_def Let_def upper_stats_clear_def)
qed

lemma upper_mmio_write32:
  "upper_stats_clear fp s \<Longrightarrow> upper_stats_clear fp (mmio_write32 fp a v s)"
  using upper_pic_ack [of fp s "v AND 0xFF"]
  by (simp add: mmio_write32_def Let_def upper_stats_clear_def)

lemma upper_apply_call:
  "upper_stats_clear fp s \<Longrightarrow> upper_stats_clear fp (apply_call fp c s)"
proof (cases c)
  case Tick
  assume "upper_stats_clear fp s"
  with Tick show ?thesis by (simp add: upper_iosub_tick)
next
  case (AckIrq v)
  assume "upper_stats_clear fp s"
  with AckIrq show ?thesis by (simp add: iosub_ack_irq_def upper_pic_ack)
next
  case (Write8 a v)
  assume "upper_stats_clear fp s"
  with Write8 show ?thesis by (simp add: iosub_write8_def Let_def upper_mmio_write32)
next
  case (Write16 a v)
  assume "upper_stats_clear fp s"
  with Write16 show ?thesis by (simp add: iosub_write16_def Let_def upper_mmio_write32)
next
  case (Write32 a v)
  assume "upper_stats_clear fp s"
  with Write32 show ?thesis by (simp add: iosub_write32_def upper_mmio_write32)
next
  case InitDefault
  then show ?thesis by (simp add: init_default_zero_state upper_zero_state)
qed

lemma upper_run_calls:
  "upper_stats_clear fp s \<Longrightarrow> upper_stats_clear fp (run_calls fp cs s)"
  by (induction cs arbitrary: s) (simp_all add: upper_apply_call)

text \<open>
  C7. In every state the subsystem can reach from reset through its calls, the query
  returns \<open>(0, 0, 0)\<close> for a vector of 32 or more, and for a vector in 0..31 the
  count, the mean and as variance \<open>m2 / (count - 1)\<close> when the count exceeds 1 and 0
  otherwise. (The guard of the source is \<^verbatim>\<open>vector >= 64\<close>; the slots 32..63 it lets
  through are never written, \<open>upper_run_calls\<close>.)
\<close>

theorem get_irq_stats_contract:
  "iosub_get_irq_stats fp vector (run_calls fp cs (zero_state fp)) =
     (if vector \<ge> 32 then (0, ld_zero fp, ld_zero fp)
      else
        (samples_count (pic (run_calls fp cs (zero_state fp))) (unat vector),
         samples_mean (pic (run_calls fp cs (zero_state fp))) (unat vector),
         if samples_count (pic (run_calls fp cs (zero_state fp))) (unat vector) > 1
         then ld_div fp (samples_m2 (pic (run_calls fp cs (zero_state fp))) (unat vector))
                (ld_of_u64 fp
                  (samples_count (pic (run_calls fp cs (zero_state fp))) (unat vector) - 1))
         else ld_zero fp))"
proof -
  let ?s = "run_calls fp cs (zero_state fp)"
  have inv: "upper_stats_clear fp ?s"
    by (rule upper_run_calls) (rule upper_zero_state)
  show ?thesis
  proof (cases "vector \<ge> 32")
    case True
    then have "32 \<le> unat vector" by (simp add: word_le_nat_alt)
    with inv have "samples_count (pic ?s) (unat vector) = 0"
      "samples_mean (pic ?s) (unat vector) = ld_zero fp"
      "samples_m2 (pic ?s) (unat vector) = ld_zero fp"
      by (simp_all add: upper_stats_clear_def)
    with True show ?thesis
      by (simp add: iosub_get_irq_stats_def Let_def)
  next
    case False
    then have "vector < 32" by (simp only: not_le)
    then have "vector < 64" by (simp add: word_less_nat_alt)
    then have "\<not> vector \<ge> 64" by (rule lt_not_ge)
    with False show ?thesis
      by (simp add: iosub_get_irq_stats_def Let_def)
  qed
qed

subsection \<open>Register round trips\<close>

lemma lit_mask1: "(1 :: u32) = mask 1" and lit_mask2: "(3 :: u32) = mask 2"
  and lit_mask8: "(0xFF :: u32) = mask 8"
  by (simp_all add: mask_eq_exp_minus_1)

lemma status_readback: "ucast (ucast (v AND 0xFF :: u32) :: u8) = v AND (0xFF :: u32)"
  unfolding lit_mask8 by (rule bit_eqI) (auto simp add: bit_simps)

lemma ctrl_readback:
  "(ucast (ucast (v AND 1 :: u32) :: u8) AND (1 :: u32)) OR
     push_bit 1 (ucast (ucast (drop_bit 1 v AND 1 :: u32) :: u8) AND (1 :: u32)) = v AND 3"
  unfolding lit_mask1 lit_mask2
  apply (rule bit_eqI)
  apply (simp only: bit_simps)
  apply (auto simp add: less_Suc_eq_0_disj less_2_cases_iff)
  done

text \<open>
  C8. Writing \<open>v\<close> and reading the same register back gives \<open>v\<close> for PERIOD, COUNT and
  MASK, the low 8 bits of \<open>v\<close> for STATUS, and bits 0 and 1 of \<open>v\<close> for CTRL.
\<close>

theorem register_round_trip:
  "iosub_read32 (TIMER_BASE + TIMER_OFF_CTRL)
     (iosub_write32 fp (TIMER_BASE + TIMER_OFF_CTRL) v s) = v AND 3 \<and>
   iosub_read32 (TIMER_BASE + TIMER_OFF_PERIOD)
     (iosub_write32 fp (TIMER_BASE + TIMER_OFF_PERIOD) v s) = v \<and>
   iosub_read32 (TIMER_BASE + TIMER_OFF_COUNT)
     (iosub_write32 fp (TIMER_BASE + TIMER_OFF_COUNT) v s) = v \<and>
   iosub_read32 (TIMER_BASE + TIMER_OFF_STATUS)
     (iosub_write32 fp (TIMER_BASE + TIMER_OFF_STATUS) v s) = v AND 0xFF \<and>
   iosub_read32 (PIC_BASE + PIC_OFF_MASK)
     (iosub_write32 fp (PIC_BASE + PIC_OFF_MASK) v s) = v"
proof (intro conjI)
  show "iosub_read32 (TIMER_BASE + TIMER_OFF_CTRL)
     (iosub_write32 fp (TIMER_BASE + TIMER_OFF_CTRL) v s) = v AND 3"
    using ctrl_readback [of v]
    by (simp add: iosub_read32_def iosub_write32_def mmio_read32_def mmio_write32_def
        in_range_def config_defs)
  show "iosub_read32 (TIMER_BASE + TIMER_OFF_PERIOD)
     (iosub_write32 fp (TIMER_BASE + TIMER_OFF_PERIOD) v s) = v"
    by (simp add: iosub_read32_def iosub_write32_def mmio_read32_def mmio_write32_def
        in_range_def config_defs)
  show "iosub_read32 (TIMER_BASE + TIMER_OFF_COUNT)
     (iosub_write32 fp (TIMER_BASE + TIMER_OFF_COUNT) v s) = v"
    by (simp add: iosub_read32_def iosub_write32_def mmio_read32_def mmio_write32_def
        in_range_def config_defs)
  show "iosub_read32 (TIMER_BASE + TIMER_OFF_STATUS)
     (iosub_write32 fp (TIMER_BASE + TIMER_OFF_STATUS) v s) = v AND 0xFF"
    using status_readback [of v]
    by (simp add: iosub_read32_def iosub_write32_def mmio_read32_def mmio_write32_def
        in_range_def config_defs)
  show "iosub_read32 (PIC_BASE + PIC_OFF_MASK)
     (iosub_write32 fp (PIC_BASE + PIC_OFF_MASK) v s) = v"
    by (simp add: iosub_read32_def iosub_write32_def mmio_read32_def mmio_write32_def
        in_range_def config_defs)
qed

subsection \<open>The clock is advanced before the timer\<close>

lemma cycles_pic_ack: "global_cycles (pic_ack fp v s) = global_cycles s"
  by (simp add: pic_ack_def pic_record_latency_def Let_def)

lemma cycles_mmio_write32: "global_cycles (mmio_write32 fp a v s) = global_cycles s"
  by (simp add: mmio_write32_def Let_def cycles_pic_ack)

lemma cycles_timer_tick: "global_cycles (timer_tick s) = global_cycles s"
  by (simp add: timer_tick_def Let_def pic_signal_irq_def)

lemma cycles_apply_call:
  "global_cycles (apply_call fp c s) =
     (case c of Tick \<Rightarrow> global_cycles s + 1 | InitDefault \<Rightarrow> 0 | _ \<Rightarrow> global_cycles s)"
  by (cases c)
    (simp_all add: iosub_tick_def cycles_timer_tick iosub_ack_irq_def cycles_pic_ack
      iosub_write8_def iosub_write16_def iosub_write32_def Let_def cycles_mmio_write32
      init_default_zero_state zero_state_def)

lemma cycles_run_calls:
  "global_cycles (run_calls fp cs s) =
     (if InitDefault \<in> set cs then of_nat (ticks_since_init cs)
      else global_cycles s + of_nat (ticks_since_init cs))"
proof (induction cs arbitrary: s)
  case Nil
  then show ?case by simp
next
  case (Cons c cs)
  show ?case
    by (simp add: Cons.IH cycles_apply_call init_default_zero_state zero_state_def
        split: call.split)
qed

lemma cycles_from_reset:
  "global_cycles (run_calls fp cs (zero_state fp)) = of_nat (ticks_since_init cs)"
  by (simp add: cycles_run_calls zero_state_def)

text \<open>
  C9. Let the \<open>N\<close>-th tick call since reset fire with the interrupt enabled
  (\<open>N\<close> below \<open>2 ^ 64\<close>, where the cycle counter wraps). The clock is incremented
  first, so the firing cycle recorded for vector 0 is \<open>N\<close>, and an acknowledgment of
  vector 0 before any further tick is accepted and records one sample of latency 0.
\<close>

theorem tick_then_ack_latency_zero:
  assumes "s = run_calls fp cs (zero_state fp)"
    and "N = Suc (ticks_since_init cs)"
    and "N < 2 ^ 64"
    and "enabled (timer s) \<noteq> 0" and "period (timer s) \<noteq> 0" and "count (timer s) = 0"
    and "irq_enable (timer s) \<noteq> 0"
  shows "global_cycles (iosub_tick s) = of_nat N \<and>
         last_event_cycle (pic (iosub_tick s)) 0 = of_nat N \<and>
         unat (last_event_cycle (pic (iosub_tick s)) 0) = N \<and>
         global_cycles (iosub_tick s) - last_event_cycle (pic (iosub_tick s)) 0 = 0 \<and>
         iosub_ack_irq fp 0 (iosub_tick s) =
           (1, (pic_record_latency fp 0 0 (iosub_tick s))
                 \<lparr>pic := (pic (pic_record_latency fp 0 0 (iosub_tick s)))
                     \<lparr>pending_bits := pending_bits (pic (iosub_tick s)) AND NOT 1\<rparr>\<rparr>) \<and>
         samples_count (pic (snd (iosub_ack_irq fp 0 (iosub_tick s)))) 0 =
           samples_count (pic s) 0 + 1"
proof -
  let ?t = "iosub_tick s"
  have g: "global_cycles s = of_nat (ticks_since_init cs)"
    by (simp add: assms(1) cycles_from_reset)
  have gt: "global_cycles ?t = of_nat N"
    by (simp add: iosub_tick_def cycles_timer_tick g assms(2))
  have le: "last_event_cycle (pic ?t) 0 = global_cycles s + 1"
    using assms(4-7)
    by (simp add: iosub_tick_def timer_tick_def pic_signal_irq_def Let_def VECTOR_TIMER_def)
  then have le': "last_event_cycle (pic ?t) 0 = of_nat N"
    by (simp add: g assms(2))
  have un: "unat (of_nat N :: u64) = N"
    using assms(3) by (simp add: unat_of_nat take_bit_nat_eq_self)
  with assms(2) have nz: "(of_nat N :: u64) \<noteq> 0"
    by (metis Zero_neq_Suc unat_0)
  have cnt: "samples_count (pic ?t) 0 = samples_count (pic s) 0"
    using assms(4-7)
    by (simp add: iosub_tick_def timer_tick_def pic_signal_irq_def Let_def VECTOR_TIMER_def)
  have ack: "iosub_ack_irq fp 0 ?t =
           (1, (pic_record_latency fp 0 0 ?t)
                 \<lparr>pic := (pic (pic_record_latency fp 0 0 ?t))
                     \<lparr>pending_bits := pending_bits (pic ?t) AND NOT 1\<rparr>\<rparr>)"
    using nz by (simp add: iosub_ack_irq_def pic_ack_def Let_def gt le' pic_record_latency_def)
  have "samples_count (pic (snd (iosub_ack_irq fp 0 ?t))) 0 = samples_count (pic ?t) 0 + 1"
    by (simp add: ack pic_record_latency_def Let_def)
  with cnt have c: "samples_count (pic (snd (iosub_ack_irq fp 0 ?t))) 0 =
      samples_count (pic s) 0 + 1"
    by simp
  from gt le' un ack c show ?thesis
    by simp
qed

theorem tick_then_ack_latency_zero_witness:
  "Suc (ticks_since_init [Write32 (TIMER_BASE + TIMER_OFF_PERIOD) 2,
      Write32 (TIMER_BASE + TIMER_OFF_CTRL) 3, Tick, AckIrq 0, Tick, Tick]) = 4 \<and>
   (4::nat) < 2 ^ 64 \<and>
   count (timer (run_calls real_ld [Write32 (TIMER_BASE + TIMER_OFF_PERIOD) 2,
      Write32 (TIMER_BASE + TIMER_OFF_CTRL) 3, Tick, AckIrq 0, Tick, Tick]
      (zero_state real_ld))) = 0 \<and>
   global_cycles (iosub_tick (run_calls real_ld [Write32 (TIMER_BASE + TIMER_OFF_PERIOD) 2,
      Write32 (TIMER_BASE + TIMER_OFF_CTRL) 3, Tick, AckIrq 0, Tick, Tick]
      (zero_state real_ld))) = 4 \<and>
   last_event_cycle (pic (iosub_tick (run_calls real_ld
      [Write32 (TIMER_BASE + TIMER_OFF_PERIOD) 2,
      Write32 (TIMER_BASE + TIMER_OFF_CTRL) 3, Tick, AckIrq 0, Tick, Tick]
      (zero_state real_ld)))) 0 = 4 \<and>
   samples_count (pic (snd (iosub_ack_irq real_ld 0 (iosub_tick (run_calls real_ld
      [Write32 (TIMER_BASE + TIMER_OFF_PERIOD) 2,
      Write32 (TIMER_BASE + TIMER_OFF_CTRL) 3, Tick, AckIrq 0, Tick, Tick]
      (zero_state real_ld)))))) 0 = 2"
proof -
  let ?cs = "[Write32 (TIMER_BASE + TIMER_OFF_PERIOD) 2,
      Write32 (TIMER_BASE + TIMER_OFF_CTRL) 3, Tick, AckIrq 0, Tick, Tick]"
  let ?s = "run_calls real_ld ?cs (zero_state real_ld)"
  have lt: "(4::nat) < 2 ^ 64" by simp
  have tm: "timer ?s = \<lparr>enabled = 1, irq_enable = 1, period = 2, count = 0,
     status = 1, events_generated = 1\<rparr>"
    by (simp add: eval_defs)
  have sc: "samples_count (pic ?s) 0 = 1"
    by (simp add: eval_defs)
  have n: "(4::nat) = Suc (ticks_since_init ?cs)" by simp
  have h: "enabled (timer ?s) \<noteq> 0" "period (timer ?s) \<noteq> 0" "count (timer ?s) = 0"
    "irq_enable (timer ?s) \<noteq> 0"
    unfolding tm by simp_all
  note t = tick_then_ack_latency_zero [OF refl n lt h]
  have g: "global_cycles (iosub_tick ?s) = 4"
    using t [THEN conjunct1] by (simp del: run_calls.simps)
  have l: "last_event_cycle (pic (iosub_tick ?s)) 0 = 4"
    using t [THEN conjunct2, THEN conjunct1] by (simp del: run_calls.simps)
  have c: "samples_count (pic (snd (iosub_ack_irq real_ld 0 (iosub_tick ?s)))) 0 = 2"
    using t [THEN conjunct2, THEN conjunct2, THEN conjunct2, THEN conjunct2, THEN conjunct2]
    by (simp del: run_calls.simps add: sc)
  from n [symmetric] lt h(3) g l c show ?thesis
    by (intro conjI) (erule conjE | assumption)+
qed

subsection \<open>The first period\<close>

text \<open>
  C10. With the timer enabled, a period above 0 and the count at its reset value 0, the
  next tick fires at once: it increments \<open>events_generated\<close>, sets bit 0 of the status,
  reloads the count with the period and, when the interrupt is enabled, sets pending
  bit 0 and records the new clock value for vector 0.
\<close>

theorem tick_first_period_fires:
  assumes "enabled (timer s) \<noteq> 0" and "period (timer s) \<noteq> 0" and "count (timer s) = 0"
  shows "events_generated (timer (iosub_tick s)) = events_generated (timer s) + 1 \<and>
         status (timer (iosub_tick s)) = 1 \<and> bit (status (timer (iosub_tick s))) 0 \<and>
         count (timer (iosub_tick s)) = period (timer s) \<and>
         (irq_enable (timer s) \<noteq> 0 \<longrightarrow>
            bit (pending_bits (pic (iosub_tick s))) 0 \<and>
            pending_bits (pic (iosub_tick s)) = pending_bits (pic s) OR 1 \<and>
            last_event_cycle (pic (iosub_tick s)) 0 = global_cycles s + 1) \<and>
         (irq_enable (timer s) = 0 \<longrightarrow> pic (iosub_tick s) = pic s)"
  using assms
  by (simp add: iosub_tick_def timer_tick_def pic_signal_irq_def Let_def VECTOR_TIMER_def bit_simps)

theorem tick_first_period_fires_witness:
  "enabled (timer (harness_setup real_ld (zero_state real_ld))) \<noteq> 0 \<and>
   period (timer (harness_setup real_ld (zero_state real_ld))) \<noteq> 0 \<and>
   count (timer (harness_setup real_ld (zero_state real_ld))) = 0 \<and>
   irq_enable (timer (harness_setup real_ld (zero_state real_ld))) \<noteq> 0 \<and>
   events_generated (timer (iosub_tick (harness_setup real_ld (zero_state real_ld)))) = 1 \<and>
   status (timer (iosub_tick (harness_setup real_ld (zero_state real_ld)))) = 1 \<and>
   count (timer (iosub_tick (harness_setup real_ld (zero_state real_ld)))) = 10 \<and>
   pending_bits (pic (iosub_tick (harness_setup real_ld (zero_state real_ld)))) = 1 \<and>
   last_event_cycle (pic (iosub_tick (harness_setup real_ld (zero_state real_ld)))) 0 = 1 \<and>
   enabled (timer (iosub_write32 real_ld (TIMER_BASE + TIMER_OFF_CTRL) 1
     (harness_setup real_ld (zero_state real_ld)))) \<noteq> 0 \<and>
   irq_enable (timer (iosub_write32 real_ld (TIMER_BASE + TIMER_OFF_CTRL) 1
     (harness_setup real_ld (zero_state real_ld)))) = 0 \<and>
   events_generated (timer (iosub_tick (iosub_write32 real_ld (TIMER_BASE + TIMER_OFF_CTRL) 1
     (harness_setup real_ld (zero_state real_ld))))) = 1 \<and>
   pic (iosub_tick (iosub_write32 real_ld (TIMER_BASE + TIMER_OFF_CTRL) 1
     (harness_setup real_ld (zero_state real_ld)))) =
     pic (iosub_write32 real_ld (TIMER_BASE + TIMER_OFF_CTRL) 1
       (harness_setup real_ld (zero_state real_ld)))"
proof -
  let ?s = "harness_setup real_ld (zero_state real_ld)"
  let ?q = "iosub_write32 real_ld (TIMER_BASE + TIMER_OFF_CTRL) 1 ?s"
  have t: "timer ?s = \<lparr>enabled = 1, irq_enable = 1, period = 10, count = 0,
     status = 0, events_generated = 0\<rparr>"
    by (rule timer_harness_setup)
  have p: "pending_bits (pic ?s) = 0" "global_cycles ?s = 0"
    by (simp_all add: eval_defs)
  have h: "enabled (timer ?s) \<noteq> 0" "period (timer ?s) \<noteq> 0" "count (timer ?s) = 0"
    by (simp_all add: t)
  have i: "irq_enable (timer ?s) \<noteq> 0"
    by (simp add: t)
  have tq: "timer ?q = \<lparr>enabled = 1, irq_enable = 0, period = 10, count = 0,
     status = 0, events_generated = 0\<rparr>"
    by (simp add: iosub_write32_def mmio_write32_def in_range_def config_defs t)
  have hq: "enabled (timer ?q) \<noteq> 0" "period (timer ?q) \<noteq> 0" "count (timer ?q) = 0"
    by (simp_all add: tq)
  have iq: "irq_enable (timer ?q) = 0"
    by (simp add: tq)
  note a = tick_first_period_fires [OF h]
  note b = tick_first_period_fires [OF hq]
  have a1: "events_generated (timer (iosub_tick ?s)) = 1"
    using a [THEN conjunct1] by (simp add: t)
  have a2: "status (timer (iosub_tick ?s)) = 1"
    by (rule a [THEN conjunct2, THEN conjunct1])
  have a3: "count (timer (iosub_tick ?s)) = 10"
    using a [THEN conjunct2, THEN conjunct2, THEN conjunct2, THEN conjunct1] by (simp add: t)
  note a4 = a [THEN conjunct2, THEN conjunct2, THEN conjunct2, THEN conjunct2, THEN conjunct1,
    THEN mp, OF i]
  have a5: "pending_bits (pic (iosub_tick ?s)) = 1"
    using a4 [THEN conjunct2, THEN conjunct1] by (simp add: p)
  have a6: "last_event_cycle (pic (iosub_tick ?s)) 0 = 1"
    using a4 [THEN conjunct2, THEN conjunct2] by (simp add: p)
  have b1: "events_generated (timer (iosub_tick ?q)) = 1"
    using b [THEN conjunct1] by (simp add: tq)
  have b2: "pic (iosub_tick ?q) = pic ?q"
    by (rule b [THEN conjunct2, THEN conjunct2, THEN conjunct2, THEN conjunct2, THEN conjunct2,
      THEN mp, OF iq])
  from h i a1 a2 a3 a5 a6 hq(1) iq b1 b2 show ?thesis
    by (intro conjI) (erule conjE | assumption)+
qed

end
